theory Spec2Isabelle
  imports Complex_Main "HOL-Library.Multiset"
begin

section \<open>The graph module \<^verbatim>\<open>ch4_graph.py\<close>\<close>

text \<open>
  The module defines two edge classes (\<^verbatim>\<open>Edge\<close> and its subclass \<^verbatim>\<open>WeightedEdge\<close>) and two
  graph classes (\<^verbatim>\<open>Graph\<close> and its subclass \<^verbatim>\<open>WeightedGraph\<close>). A graph object holds two
  Python lists, \<^verbatim>\<open>_vertices\<close> and \<^verbatim>\<open>_edges\<close>, and its methods mutate them in place.

  The embedding passes the graph state explicitly. A method that mutates returns the
  state it leaves behind together with its outcome, so that the state left by a call
  that raises is part of the model. Exceptions are values of the type \<open>error\<close>.
  Python integers are \<open>int\<close>. The vertex type \<open>'v\<close> and the weight type \<open>'w\<close> are type
  parameters: the code stores, copies and compares them and does nothing else with them.

  A method reads and writes two things: the list object that \<^verbatim>\<open>self._vertices\<close> refers to
  and the list of adjacency lists in \<^verbatim>\<open>self._edges\<close>. The record \<open>Graph\<close> is this pair as the
  method finds it, and the methods are functions on it. The constructors do not copy the
  list they are given, so several graphs can refer to one list object; the last part of
  the model is a store of list objects and graph objects, with the constructors and the
  method calls as steps on it.
\<close>

subsection \<open>Exceptions and list subscripts\<close>

datatype error = IndexError | ValueError | TypeError | AttributeError

text \<open>
  \<^verbatim>\<open>xs[i]\<close> on a Python list of length \<open>n\<close>: an index in \<open>[0, n)\<close> is a position, an index
  in \<open>[-n, 0)\<close> counts from the end, every other index raises \<^verbatim>\<open>IndexError\<close>.
\<close>

definition list_pos :: "'a list \<Rightarrow> int \<Rightarrow> error + nat" where
  "list_pos xs i =
     (let n = int (length xs)
      in if 0 \<le> i \<and> i < n then Inr (nat i)
         else if - n \<le> i \<and> i < 0 then Inr (nat (i + n))
         else Inl IndexError)"

definition getitem :: "'a list \<Rightarrow> int \<Rightarrow> error + 'a" where
  "getitem xs i = (case list_pos xs i of Inl err \<Rightarrow> Inl err | Inr k \<Rightarrow> Inr (xs ! k))"

text \<open>
  \<^verbatim>\<open>xs.index(x)\<close>: the position of the first element equal to \<open>x\<close>, \<^verbatim>\<open>ValueError\<close> when
  there is none (the kind the specification calls NotFound).
\<close>

fun list_index :: "'a list \<Rightarrow> 'a \<Rightarrow> error + int" where
  "list_index [] x = Inl ValueError"
| "list_index (y # ys) x =
     (if y = x then Inr 0
      else case list_index ys x of Inl err \<Rightarrow> Inl err | Inr i \<Rightarrow> Inr (i + 1))"

text \<open>\<^verbatim>\<open>map(f, xs)\<close> forced by \<^verbatim>\<open>list\<close>, for an \<open>f\<close> that may raise: the first exception wins.\<close>

fun map_raise :: "('a \<Rightarrow> error + 'b) \<Rightarrow> 'a list \<Rightarrow> error + 'b list" where
  "map_raise f [] = Inr []"
| "map_raise f (x # xs) =
     (case f x of Inl err \<Rightarrow> Inl err
      | Inr y \<Rightarrow> (case map_raise f xs of Inl err \<Rightarrow> Inl err | Inr ys \<Rightarrow> Inr (y # ys)))"

subsection \<open>Edges\<close>

text \<open>
  The two dataclasses are the two constructors of one type, so that a method inherited by
  \<^verbatim>\<open>WeightedGraph\<close> reaches the \<^verbatim>\<open>reversed\<close> of the edge it is given, as the method call
  \<^verbatim>\<open>edge.reversed()\<close> does. The fields \<^verbatim>\<open>u\<close> and \<^verbatim>\<open>v\<close> are \<open>edge_u\<close> and \<open>edge_v\<close>.
\<close>

datatype 'w edge =
    Edge (edge_u: int) (edge_v: int)
  | WeightedEdge (edge_u: int) (edge_v: int) 'w

fun weight :: "'w edge \<Rightarrow> error + 'w" where
  "weight (WeightedEdge a b w) = Inr w"
| "weight (Edge a b) = Inl AttributeError"

fun reversed :: "'w edge \<Rightarrow> 'w edge" where
  "reversed (Edge a b) = Edge b a"
| "reversed (WeightedEdge a b w) = WeightedEdge b a w"

text \<open>\<^verbatim>\<open>WeightedEdge.__lt__\<close>: \<^verbatim>\<open>self.weight < other.weight\<close>.\<close>

definition WeightedEdge_lt :: "('w::ord) edge \<Rightarrow> 'w edge \<Rightarrow> error + bool" where
  "WeightedEdge_lt self other =
     (case weight self of Inl err \<Rightarrow> Inl err
      | Inr a \<Rightarrow> (case weight other of Inl err \<Rightarrow> Inl err | Inr b \<Rightarrow> Inr (a < b)))"

subsection \<open>Graphs\<close>

record ('v, 'w) Graph =
  vertices :: "'v list"
  edges :: "'w edge list list"

definition vertex_count :: "('v, 'w) Graph \<Rightarrow> int" where
  "vertex_count g = int (length (vertices g))"

definition edge_count :: "('v, 'w) Graph \<Rightarrow> int" where
  "edge_count g = int (sum_list (map length (edges g)))"

definition add_vertex :: "'v \<Rightarrow> ('v, 'w) Graph \<Rightarrow> ('v, 'w) Graph \<times> int" where
  "add_vertex vertex g =
     (let g1 = g\<lparr>vertices := vertices g @ [vertex]\<rparr>;
          g2 = g1\<lparr>edges := edges g1 @ [[]]\<rparr>
      in (g2, vertex_count g2 - 1))"

text \<open>
  \<^verbatim>\<open>add_edge\<close> is two statements. Each subscripts \<^verbatim>\<open>self._edges\<close> and appends to the list
  it finds; when the second subscript raises, the first append has already happened.
\<close>

definition add_edge :: "'w edge \<Rightarrow> ('v, 'w) Graph \<Rightarrow> ('v, 'w) Graph \<times> (error + unit)" where
  "add_edge e g =
     (case list_pos (edges g) (edge_u e) of
        Inl err \<Rightarrow> (g, Inl err)
      | Inr i \<Rightarrow>
          (let g1 = g\<lparr>edges := (edges g)[i := edges g ! i @ [e]]\<rparr>
           in case list_pos (edges g1) (edge_v e) of
                Inl err \<Rightarrow> (g1, Inl err)
              | Inr j \<Rightarrow>
                  (g1\<lparr>edges := (edges g1)[j := edges g1 ! j @ [reversed e]]\<rparr>, Inr ())))"

definition add_edge_by_indices ::
  "int \<Rightarrow> int \<Rightarrow> ('v, 'w) Graph \<Rightarrow> ('v, 'w) Graph \<times> (error + unit)" where
  "add_edge_by_indices u v g = add_edge (Edge u v) g"

definition add_edge_by_vertices ::
  "'v \<Rightarrow> 'v \<Rightarrow> ('v, 'w) Graph \<Rightarrow> ('v, 'w) Graph \<times> (error + unit)" where
  "add_edge_by_vertices first second g =
     (case list_index (vertices g) first of
        Inl err \<Rightarrow> (g, Inl err)
      | Inr u \<Rightarrow>
          (case list_index (vertices g) second of
             Inl err \<Rightarrow> (g, Inl err)
           | Inr v \<Rightarrow> add_edge_by_indices u v g))"

definition vertex_at :: "int \<Rightarrow> ('v, 'w) Graph \<Rightarrow> error + 'v" where
  "vertex_at index g = getitem (vertices g) index"

definition index_of :: "'v \<Rightarrow> ('v, 'w) Graph \<Rightarrow> error + int" where
  "index_of vertex g = list_index (vertices g) vertex"

definition neighbors_for_index :: "int \<Rightarrow> ('v, 'w) Graph \<Rightarrow> error + 'v list" where
  "neighbors_for_index index g =
     (case getitem (edges g) index of
        Inl err \<Rightarrow> Inl err
      | Inr es \<Rightarrow> map_raise (\<lambda>i. vertex_at i g) (map edge_v es))"

definition neighbors_for_vertex :: "'v \<Rightarrow> ('v, 'w) Graph \<Rightarrow> error + 'v list" where
  "neighbors_for_vertex vertex g =
     (case index_of vertex g of Inl err \<Rightarrow> Inl err | Inr i \<Rightarrow> neighbors_for_index i g)"

definition edges_for_index :: "int \<Rightarrow> ('v, 'w) Graph \<Rightarrow> error + 'w edge list" where
  "edges_for_index index g = getitem (edges g) index"

text \<open>
  \<^verbatim>\<open>edges_for_vertex\<close> passes the vertex value to \<^verbatim>\<open>vertex_at\<close>, and the vertex that comes
  back to \<^verbatim>\<open>edges_for_index\<close>: a value of the vertex type is used as a list subscript
  twice. What a subscript makes of such a value depends on the vertex type, so it is the
  parameter \<open>as_index\<close>: \<open>Some i\<close> for a value that is the integer \<open>i\<close>, \<open>None\<close> for a value
  that a list does not accept as an index (\<^verbatim>\<open>TypeError\<close>), as for the strings of the
  module's own example.
\<close>

definition edges_for_vertex ::
  "('v \<Rightarrow> int option) \<Rightarrow> 'v \<Rightarrow> ('v, 'w) Graph \<Rightarrow> error + 'w edge list" where
  "edges_for_vertex as_index vertex g =
     (case as_index vertex of
        None \<Rightarrow> Inl TypeError
      | Some i \<Rightarrow>
          (case vertex_at i g of
             Inl err \<Rightarrow> Inl err
           | Inr x \<Rightarrow>
               (case as_index x of
                  None \<Rightarrow> Inl TypeError
                | Some j \<Rightarrow> edges_for_index j g)))"

subsection \<open>Weighted graphs\<close>

definition WeightedGraph_add_edge_by_indices ::
  "int \<Rightarrow> int \<Rightarrow> 'w \<Rightarrow> ('v, 'w) Graph \<Rightarrow> ('v, 'w) Graph \<times> (error + unit)" where
  "WeightedGraph_add_edge_by_indices u v w g = add_edge (WeightedEdge u v w) g"

definition WeightedGraph_add_edge_by_vertices ::
  "'v \<Rightarrow> 'v \<Rightarrow> 'w \<Rightarrow> ('v, 'w) Graph \<Rightarrow> ('v, 'w) Graph \<times> (error + unit)" where
  "WeightedGraph_add_edge_by_vertices first second w g =
     (case index_of first g of
        Inl err \<Rightarrow> (g, Inl err)
      | Inr u \<Rightarrow>
          (case index_of second g of
             Inl err \<Rightarrow> (g, Inl err)
           | Inr v \<Rightarrow> WeightedGraph_add_edge_by_indices u v w g))"

text \<open>
  The loop of \<^verbatim>\<open>neighbors_for_index_with_weights\<close>: for each edge, first
  \<^verbatim>\<open>vertex_at(edge.v)\<close>, then \<^verbatim>\<open>edge.weight\<close>, and the pair is appended to the result.
\<close>

fun distance_tuples_loop ::
  "'w edge list \<Rightarrow> ('v, 'w) Graph \<Rightarrow> ('v \<times> 'w) list \<Rightarrow> error + ('v \<times> 'w) list" where
  "distance_tuples_loop [] g acc = Inr acc"
| "distance_tuples_loop (e # es) g acc =
     (case vertex_at (edge_v e) g of
        Inl err \<Rightarrow> Inl err
      | Inr x \<Rightarrow>
          (case weight e of
             Inl err \<Rightarrow> Inl err
           | Inr w \<Rightarrow> distance_tuples_loop es g (acc @ [(x, w)])))"

definition neighbors_for_index_with_weights ::
  "int \<Rightarrow> ('v, 'w) Graph \<Rightarrow> error + ('v \<times> 'w) list" where
  "neighbors_for_index_with_weights index g =
     (case edges_for_index index g of
        Inl err \<Rightarrow> Inl err
      | Inr es \<Rightarrow> distance_tuples_loop es g [])"

subsection \<open>Sequences of calls\<close>

text \<open>
  A caller's sequence of mutating calls on one graph. \<open>apply_op\<close> makes one call and
  \<open>exec_ops\<close> makes them in order, each on the state the previous one left, whether or not
  it raised. \<open>all_succeed\<close> says that no call of the sequence raises.
\<close>

datatype ('v, 'w) op =
    AddVertex 'v
  | AddEdge "'w edge"
  | AddEdgeByIndices int int
  | AddEdgeByVertices 'v 'v
  | WeightedAddEdgeByIndices int int 'w
  | WeightedAddEdgeByVertices 'v 'v 'w

fun apply_op :: "('v, 'w) op \<Rightarrow> ('v, 'w) Graph \<Rightarrow> ('v, 'w) Graph \<times> (error + unit)" where
  "apply_op (AddVertex x) g = (fst (add_vertex x g), Inr ())"
| "apply_op (AddEdge e) g = add_edge e g"
| "apply_op (AddEdgeByIndices u v) g = add_edge_by_indices u v g"
| "apply_op (AddEdgeByVertices a b) g = add_edge_by_vertices a b g"
| "apply_op (WeightedAddEdgeByIndices u v w) g = WeightedGraph_add_edge_by_indices u v w g"
| "apply_op (WeightedAddEdgeByVertices a b w) g = WeightedGraph_add_edge_by_vertices a b w g"

fun exec_ops :: "('v, 'w) op list \<Rightarrow> ('v, 'w) Graph \<Rightarrow> ('v, 'w) Graph" where
  "exec_ops [] g = g"
| "exec_ops (c # cs) g = exec_ops cs (fst (apply_op c g))"

fun all_succeed :: "('v, 'w) op list \<Rightarrow> ('v, 'w) Graph \<Rightarrow> bool" where
  "all_succeed [] g = True"
| "all_succeed (c # cs) g =
     (case apply_op c g of (g', Inl err) \<Rightarrow> False | (g', Inr _) \<Rightarrow> all_succeed cs g')"

fun is_add_edge :: "('v, 'w) op \<Rightarrow> bool" where
  "is_add_edge (AddVertex x) = False"
| "is_add_edge _ = True"

subsection \<open>List objects, graph objects and constructors\<close>

text \<open>
  A list object is named by a reference. \<open>Graph_default\<close> and \<open>WeightedGraph_default\<close> are
  the two lists that the \<^verbatim>\<open>def\<close> statements of \<^verbatim>\<open>Graph.__init__\<close> and
  \<^verbatim>\<open>WeightedGraph.__init__\<close> create once for the default \<^verbatim>\<open>vertices = []\<close>; \<open>Caller_list n\<close>
  are the lists of the calling code. A program state has the contents of every list
  object and, for each graph object in the order of construction, the reference in its
  \<^verbatim>\<open>_vertices\<close> and its \<^verbatim>\<open>_edges\<close>.
\<close>

datatype ref = Graph_default | WeightedGraph_default | Caller_list nat

record ('v, 'w) program =
  lists :: "ref \<Rightarrow> 'v list"
  objects :: "(ref \<times> 'w edge list list) list"

text \<open>
  \<^verbatim>\<open>__init__(self, vertices = [])\<close>: the argument is \<open>None\<close> when the caller leaves it out.
  \<^verbatim>\<open>self._vertices = vertices\<close> stores the reference, and
  \<^verbatim>\<open>self._edges = [[] for _ in vertices]\<close> makes one empty list for each element the list
  has at that moment. The new graph is the last object of the new state.
\<close>

definition Graph_init :: "ref option \<Rightarrow> ('v, 'w) program \<Rightarrow> ('v, 'w) program" where
  "Graph_init arg p =
     (let vertices_arg = (case arg of None \<Rightarrow> Graph_default | Some r \<Rightarrow> r)
      in p\<lparr>objects := objects p @ [(vertices_arg, map (\<lambda>_. []) (lists p vertices_arg))]\<rparr>)"

definition WeightedGraph_init :: "ref option \<Rightarrow> ('v, 'w) program \<Rightarrow> ('v, 'w) program" where
  "WeightedGraph_init arg p =
     (let vertices_arg = (case arg of None \<Rightarrow> WeightedGraph_default | Some r \<Rightarrow> r)
      in p\<lparr>objects := objects p @ [(vertices_arg, map (\<lambda>_. []) (lists p vertices_arg))]\<rparr>)"

text \<open>
  \<open>view i p\<close> is what the methods of the graph object \<open>i\<close> find: the contents of the list
  its \<^verbatim>\<open>_vertices\<close> refers to, and its \<^verbatim>\<open>_edges\<close>. \<open>constructed vs\<close> is the view of a graph
  at the end of its constructor, when the list it was given holds \<open>vs\<close>.
\<close>

definition view :: "nat \<Rightarrow> ('v, 'w) program \<Rightarrow> ('v, 'w) Graph" where
  "view i p = \<lparr>vertices = lists p (fst (objects p ! i)), edges = snd (objects p ! i)\<rparr>"

definition constructed :: "'v list \<Rightarrow> ('v, 'w) Graph" where
  "constructed vs = \<lparr>vertices = vs, edges = map (\<lambda>_. []) vs\<rparr>"


text \<open>
  The steps of a calling program that matter to the graphs: constructing a graph of
  either class and calling a mutating method of a graph it has. \<open>exec_steps\<close> runs them
  in order. \<open>unshared\<close> says of a run that no constructor is given a list object to which
  a graph already refers.
\<close>

datatype ('v, 'w) step =
    NewGraph "ref option"
  | NewWeightedGraph "ref option"
  | Call nat "('v, 'w) op"






subsection \<open>Well-formed graphs\<close>

text \<open>
  \<open>valid_index i n\<close>: the integer \<open>i\<close> is accepted as a subscript by a list of length \<open>n\<close>.
  A graph is well formed when it has one adjacency list per vertex and both endpoints
  of every stored edge are valid subscripts. A graph is so at the end of its constructor,
  and \<^verbatim>\<open>add_vertex\<close> and every \<^verbatim>\<open>add_edge\<close> call that returns keep it so.
\<close>

definition valid_index :: "int \<Rightarrow> nat \<Rightarrow> bool" where
  "valid_index i n = (- int n \<le> i \<and> i < int n)"

definition graph_inv :: "('v, 'w) Graph \<Rightarrow> bool" where
  "graph_inv g =
     (length (edges g) = length (vertices g) \<and>
      list_all (list_all (\<lambda>e. valid_index (edge_u e) (length (vertices g)) \<and>
                               valid_index (edge_v e) (length (vertices g)))) (edges g))"

fun is_weighted :: "'w edge \<Rightarrow> bool" where
  "is_weighted (WeightedEdge a b w) = True"
| "is_weighted (Edge a b) = False"

definition weighted_inv :: "('v, 'w) Graph \<Rightarrow> bool" where
  "weighted_inv g = (graph_inv g \<and> list_all (list_all is_weighted) (edges g))"

section \<open>Basic facts\<close>

subsection \<open>List subscripts and lookups\<close>

lemma list_pos_cases:
  "list_pos xs i =
     (if valid_index i (length xs) then Inr (nat (if i < 0 then i + int (length xs) else i))
      else Inl IndexError)"
  by (auto simp: list_pos_def valid_index_def Let_def)

lemma list_pos_Inr_less: "list_pos xs i = Inr k \<Longrightarrow> k < length xs"
  by (auto simp: list_pos_def Let_def split: if_splits)

lemma list_pos_Inl: "list_pos xs i = Inl err \<Longrightarrow> err = IndexError \<and> \<not> valid_index i (length xs)"
  by (auto simp: list_pos_def valid_index_def Let_def split: if_splits)

lemma list_pos_nonneg: "0 \<le> i \<Longrightarrow> i < int (length xs) \<Longrightarrow> list_pos xs i = Inr (nat i)"
  by (simp add: list_pos_def)

lemma list_pos_update: "list_pos (xs[k := y]) i = list_pos xs i"
  by (simp add: list_pos_def)

lemma valid_index_pos:
  "valid_index i n \<Longrightarrow> nat (if i < 0 then i + int n else i) < n"
  by (auto simp: valid_index_def)

lemma valid_index_Suc: "valid_index i n \<Longrightarrow> valid_index i (Suc n)"
  by (simp add: valid_index_def)

lemma getitem_valid:
  "valid_index i (length xs) \<Longrightarrow> getitem xs i = Inr (xs ! nat (if i < 0 then i + int (length xs) else i))"
  by (simp add: getitem_def list_pos_cases)

lemma getitem_nonneg: "0 \<le> i \<Longrightarrow> i < int (length xs) \<Longrightarrow> getitem xs i = Inr (xs ! nat i)"
  by (simp add: getitem_def list_pos_def)

lemma list_index_absent: "x \<notin> set xs \<Longrightarrow> list_index xs x = Inl ValueError"
  by (induction xs) auto

lemma list_index_present:
  "x \<in> set xs \<Longrightarrow>
   \<exists>k. list_index xs x = Inr (int k) \<and> k < length xs \<and> xs ! k = x \<and> (\<forall>j<k. xs ! j \<noteq> x)"
proof (induction xs)
  case Nil
  then show ?case by simp
next
  case (Cons y ys)
  show ?case
  proof (cases "y = x")
    case True
    then have "list_index (y # ys) x = Inr (int 0)" by simp
    then show ?thesis using True by fastforce
  next
    case False
    with Cons obtain k where k: "list_index ys x = Inr (int k)" "k < length ys" "ys ! k = x"
      "\<forall>j<k. ys ! j \<noteq> x" by auto
    have "list_index (y # ys) x = Inr (int (Suc k))" using False k(1) by simp
    moreover have "\<forall>j<Suc k. (y # ys) ! j \<noteq> x" using False k(4) by (auto simp: nth_Cons')
    ultimately show ?thesis using k(2,3) by (intro exI [of _ "Suc k"]) simp
  qed
qed

lemma map_raise_total:
  "(\<And>x. x \<in> set xs \<Longrightarrow> f x = Inr (h x)) \<Longrightarrow> map_raise f xs = Inr (map h xs)"
  by (induction xs) simp_all

lemma map_raise_append:
  "map_raise f (xs @ ys) =
     (case map_raise f xs of Inl err \<Rightarrow> Inl err
      | Inr a \<Rightarrow> (case map_raise f ys of Inl err \<Rightarrow> Inl err | Inr b \<Rightarrow> Inr (a @ b)))"
  by (induction xs) (simp_all split: sum.splits)

lemma getitem_Inr_nonneg:
  assumes "getitem xs i = Inr x" and "0 \<le> i"
  shows "i < int (length xs) \<and> x = xs ! nat i"
  using assms by (auto simp: getitem_def list_pos_def Let_def split: if_splits sum.splits)

lemma nth_two_appends:
  "i < length xs \<Longrightarrow> j < length xs \<Longrightarrow> k < length xs \<Longrightarrow>
   (xs[i := xs ! i @ [a]])[j := xs[i := xs ! i @ [a]] ! j @ [b]] ! k =
     xs ! k @ (if k = i then [a] else []) @ (if k = j then [b] else [])"
  by (auto simp: nth_list_update)

lemma sum_length_append:
  "i < length xs \<Longrightarrow> sum_list (map length (xs[i := xs ! i @ [a]])) = sum_list (map length xs) + 1"
  by (simp add: map_update sum_list_update)

lemma list_all_update_append:
  assumes "list_all (list_all P) xs" and "P a"
  shows "list_all (list_all P) (xs[i := xs ! i @ [a]])"
proof (cases "i < length xs")
  case True
  with assms(1) have "list_all P (xs ! i)"
    by (simp add: list_all_iff [of "list_all P"])
  with assms(2) have new: "list_all P (xs ! i @ [a])"
    by simp
  have "set (xs[i := xs ! i @ [a]]) \<subseteq> insert (xs ! i @ [a]) (set xs)"
    by (rule set_update_subset_insert)
  with assms(1) new show ?thesis
    unfolding list_all_iff [of "list_all P"] by blast
next
  case False
  then have "xs[i := xs ! i @ [a]] = xs"
    by (simp add: list_update_beyond)
  with assms(1) show ?thesis by simp
qed

subsection \<open>What one call does\<close>

lemma add_vertex_eq:
  "add_vertex x g =
     (g\<lparr>vertices := vertices g @ [x], edges := edges g @ [[]]\<rparr>, int (length (vertices g)))"
  by (simp add: add_vertex_def vertex_count_def Let_def)

lemma add_edge_fail_u:
  "list_pos (edges g) (edge_u e) = Inl err \<Longrightarrow> add_edge e g = (g, Inl err)"
  by (simp add: add_edge_def)

lemma add_edge_fail_v:
  "list_pos (edges g) (edge_u e) = Inr i \<Longrightarrow> list_pos (edges g) (edge_v e) = Inl err \<Longrightarrow>
   add_edge e g = (g\<lparr>edges := (edges g)[i := edges g ! i @ [e]]\<rparr>, Inl err)"
  by (simp add: add_edge_def Let_def list_pos_update)

lemma add_edge_ok:
  "list_pos (edges g) (edge_u e) = Inr i \<Longrightarrow> list_pos (edges g) (edge_v e) = Inr j \<Longrightarrow>
   add_edge e g =
     (g\<lparr>edges := ((edges g)[i := edges g ! i @ [e]])
                    [j := (edges g)[i := edges g ! i @ [e]] ! j @ [reversed e]]\<rparr>, Inr ())"
  by (simp add: add_edge_def Let_def list_pos_update)

lemma add_edge_Inr:
  assumes "add_edge e g = (g', Inr r)"
  obtains i j where "list_pos (edges g) (edge_u e) = Inr i" "list_pos (edges g) (edge_v e) = Inr j"
    "g' = g\<lparr>edges := ((edges g)[i := edges g ! i @ [e]])
                    [j := (edges g)[i := edges g ! i @ [e]] ! j @ [reversed e]]\<rparr>"
  using assms by (auto simp: add_edge_def Let_def list_pos_update split: sum.splits)

lemma add_edge_in_range:
  assumes "0 \<le> edge_u e" "edge_u e < int (length (edges g))"
    and "0 \<le> edge_v e" "edge_v e < int (length (edges g))"
  shows "add_edge e g =
     (g\<lparr>edges := ((edges g)[nat (edge_u e) := edges g ! nat (edge_u e) @ [e]])
         [nat (edge_v e) := (edges g)[nat (edge_u e) := edges g ! nat (edge_u e) @ [e]]
            ! nat (edge_v e) @ [reversed e]]\<rparr>, Inr ())"
  using assms by (intro add_edge_ok list_pos_nonneg)

lemma add_edge_appends:
  assumes u: "0 \<le> edge_u e" "edge_u e < int (length (edges g))"
    and v: "0 \<le> edge_v e" "edge_v e < int (length (edges g))"
  shows "\<exists>g'. add_edge e g = (g', Inr ()) \<and> vertices g' = vertices g
    \<and> length (edges g') = length (edges g)
    \<and> (\<forall>k<length (edges g).
       edges g' ! k = edges g ! k @ (if k = nat (edge_u e) then [e] else [])
                                  @ (if k = nat (edge_v e) then [reversed e] else []))"
proof -
  let ?i = "nat (edge_u e)" and ?j = "nat (edge_v e)"
  let ?g' = "g\<lparr>edges := ((edges g)[?i := edges g ! ?i @ [e]])
         [?j := (edges g)[?i := edges g ! ?i @ [e]] ! ?j @ [reversed e]]\<rparr>"
  from u v have ok: "add_edge e g = (?g', Inr ())"
    by (rule add_edge_in_range)
  from u v have "?i < length (edges g)" "?j < length (edges g)"
    by simp_all
  then have "\<forall>k<length (edges g).
       edges ?g' ! k = edges g ! k @ (if k = ?i then [e] else [])
                                  @ (if k = ?j then [reversed e] else [])"
    by (simp add: nth_two_appends)
  with ok show ?thesis by (intro exI [of _ ?g']) simp
qed

lemma add_edge_vertices: "vertices (fst (add_edge e g)) = vertices g"
  by (simp add: add_edge_def Let_def split: sum.splits)

lemma add_edge_length: "length (edges (fst (add_edge e g))) = length (edges g)"
  by (simp add: add_edge_def Let_def split: sum.splits)

lemma add_edge_count:
  assumes "add_edge e g = (g', Inr r)"
  shows "edge_count g' = edge_count g + 2"
proof -
  from assms obtain i j where ij: "list_pos (edges g) (edge_u e) = Inr i"
    "list_pos (edges g) (edge_v e) = Inr j"
    and g': "g' = g\<lparr>edges := ((edges g)[i := edges g ! i @ [e]])
                    [j := (edges g)[i := edges g ! i @ [e]] ! j @ [reversed e]]\<rparr>"
    by (rule add_edge_Inr)
  from ij have "i < length (edges g)" "j < length ((edges g)[i := edges g ! i @ [e]])"
    by (simp_all add: list_pos_Inr_less)
  then show ?thesis
    by (simp add: g' edge_count_def sum_length_append)
qed

lemma edge_v_reversed: "edge_v (reversed e) = edge_u e"
  by (cases e) simp_all

lemma edge_u_reversed: "edge_u (reversed e) = edge_v e"
  by (cases e) simp_all

lemma vertex_at_nonneg:
  "0 \<le> i \<Longrightarrow> i < vertex_count g \<Longrightarrow> vertex_at i g = Inr (vertices g ! nat i)"
  by (simp add: vertex_at_def vertex_count_def getitem_nonneg)

subsection \<open>Sequences of calls\<close>

lemma add_edge_by_vertices_fst:
  "fst (add_edge_by_vertices a b g) = g \<or> (\<exists>e. fst (add_edge_by_vertices a b g) = fst (add_edge e g))"
  by (auto simp: add_edge_by_vertices_def add_edge_by_indices_def split: sum.splits)

lemma weighted_add_edge_by_vertices_fst:
  "fst (WeightedGraph_add_edge_by_vertices a b w g) = g \<or>
   (\<exists>e. fst (WeightedGraph_add_edge_by_vertices a b w g) = fst (add_edge e g))"
  by (auto simp: WeightedGraph_add_edge_by_vertices_def WeightedGraph_add_edge_by_indices_def
      split: sum.splits)

lemma apply_op_lengths:
  assumes "length (edges g) = length (vertices g)"
  shows "length (edges (fst (apply_op c g))) = length (vertices (fst (apply_op c g)))"
proof (cases c)
  case (AddVertex x)
  then show ?thesis using assms by (simp add: add_vertex_eq)
next
  case (AddEdge e)
  then show ?thesis using assms by (simp add: add_edge_vertices add_edge_length)
next
  case (AddEdgeByIndices u v)
  then show ?thesis using assms
    by (simp add: add_edge_by_indices_def add_edge_vertices add_edge_length)
next
  case (AddEdgeByVertices a b)
  then show ?thesis using assms add_edge_by_vertices_fst [of a b g]
    by (auto simp: add_edge_vertices add_edge_length)
next
  case (WeightedAddEdgeByIndices u v w)
  then show ?thesis using assms
    by (simp add: WeightedGraph_add_edge_by_indices_def add_edge_vertices add_edge_length)
next
  case (WeightedAddEdgeByVertices a b w)
  then show ?thesis using assms weighted_add_edge_by_vertices_fst [of a b w g]
    by (auto simp: add_edge_vertices add_edge_length)
qed

lemma exec_ops_lengths:
  "length (edges g) = length (vertices g) \<Longrightarrow>
   length (edges (exec_ops cs g)) = length (vertices (exec_ops cs g))"
  by (induction cs arbitrary: g) (simp_all add: apply_op_lengths)

lemma apply_op_add_edge:
  assumes "is_add_edge c" and "apply_op c g = (g', Inr r)"
  obtains e where "add_edge e g = (g', Inr r)"
  using assms
  by (cases c)
    (auto simp: add_edge_by_indices_def add_edge_by_vertices_def index_of_def
      WeightedGraph_add_edge_by_indices_def WeightedGraph_add_edge_by_vertices_def
      split: sum.splits)

lemma apply_op_count:
  assumes "apply_op c g = (g', Inr r)"
  shows "edge_count g' = edge_count g + (if is_add_edge c then 2 else 0)"
proof (cases "is_add_edge c")
  case True
  from True assms obtain e where "add_edge e g = (g', Inr r)" by (rule apply_op_add_edge)
  with True show ?thesis by (simp add: add_edge_count)
next
  case False
  then obtain x where "c = AddVertex x" by (cases c) simp_all
  with assms show ?thesis by (auto simp: add_vertex_eq edge_count_def)
qed

lemma exec_ops_count:
  "all_succeed cs g \<Longrightarrow>
   edge_count (exec_ops cs g) = edge_count g + 2 * int (length (filter is_add_edge cs))"
proof (induction cs arbitrary: g)
  case Nil
  then show ?case by simp
next
  case (Cons c cs)
  obtain g' r where step: "apply_op c g = (g', r)" by (cases "apply_op c g")
  with Cons.prems obtain u where r: "r = Inr u" and rest: "all_succeed cs g'"
    by (cases r) simp_all
  from step r have "edge_count g' = edge_count g + (if is_add_edge c then 2 else 0)"
    by (simp add: apply_op_count)
  with Cons.IH [OF rest] step show ?case by simp
qed

subsection \<open>Neighbours after an append\<close>

lemma neighbors_for_index_in_range:
  assumes "neighbors_for_index i g = Inr ns" and "0 \<le> i"
  shows "i < int (length (edges g))"
proof -
  from assms(1) obtain old where "getitem (edges g) i = Inr old"
    by (auto simp: neighbors_for_index_def split: sum.splits)
  with assms(2) show ?thesis by (simp add: getitem_Inr_nonneg)
qed

lemma neighbors_for_index_append:
  assumes before: "neighbors_for_index i g = Inr ns" and i: "0 \<le> i"
    and same: "vertices g' = vertices g" "length (edges g') = length (edges g)"
    and new: "edges g' ! nat i = edges g ! nat i @ es"
    and more: "map_raise (\<lambda>j. vertex_at j g) (map edge_v es) = Inr xs"
  shows "neighbors_for_index i g' = Inr (ns @ xs)"
proof -
  from before obtain old where old: "getitem (edges g) i = Inr old"
    and ns: "map_raise (\<lambda>j. vertex_at j g) (map edge_v old) = Inr ns"
    by (auto simp: neighbors_for_index_def split: sum.splits)
  from old i have "i < int (length (edges g))" and "old = edges g ! nat i"
    by (simp_all add: getitem_Inr_nonneg)
  with i same(2) new have "getitem (edges g') i = Inr (old @ es)"
    by (simp add: getitem_nonneg)
  moreover from same(1) have "(\<lambda>j. vertex_at j g') = (\<lambda>j. vertex_at j g)"
    by (simp add: vertex_at_def)
  ultimately show ?thesis
    using ns more by (simp add: neighbors_for_index_def map_raise_append)
qed

lemma distance_tuples_loop_append:
  "distance_tuples_loop (xs @ ys) g acc =
     (case distance_tuples_loop xs g acc of
        Inl err \<Rightarrow> Inl err
      | Inr acc' \<Rightarrow> distance_tuples_loop ys g acc')"
  by (induction xs arbitrary: acc) (simp_all split: sum.splits)

lemma distance_tuples_loop_vertices:
  "vertices g' = vertices g \<Longrightarrow> distance_tuples_loop es g' acc = distance_tuples_loop es g acc"
  by (induction es arbitrary: acc) (simp_all add: vertex_at_def split: sum.splits)

lemma neighbors_for_index_with_weights_in_range:
  assumes "neighbors_for_index_with_weights i g = Inr ps" and "0 \<le> i"
  shows "i < int (length (edges g))"
proof -
  from assms(1) obtain old where "getitem (edges g) i = Inr old"
    by (auto simp: neighbors_for_index_with_weights_def edges_for_index_def split: sum.splits)
  with assms(2) show ?thesis by (simp add: getitem_Inr_nonneg)
qed

lemma neighbors_for_index_with_weights_append:
  assumes before: "neighbors_for_index_with_weights i g = Inr ps" and i: "0 \<le> i"
    and same: "vertices g' = vertices g" "length (edges g') = length (edges g)"
    and new: "edges g' ! nat i = edges g ! nat i @ es"
    and more: "distance_tuples_loop es g ps = Inr qs"
  shows "neighbors_for_index_with_weights i g' = Inr qs"
proof -
  from before obtain old where old: "getitem (edges g) i = Inr old"
    and ps: "distance_tuples_loop old g [] = Inr ps"
    by (auto simp: neighbors_for_index_with_weights_def edges_for_index_def split: sum.splits)
  from old i have "i < int (length (edges g))" and "old = edges g ! nat i"
    by (simp_all add: getitem_Inr_nonneg)
  with i same(2) new have "getitem (edges g') i = Inr (old @ es)"
    by (simp add: getitem_nonneg)
  moreover from same(1) have "distance_tuples_loop (old @ es) g' [] = distance_tuples_loop (old @ es) g []"
    by (rule distance_tuples_loop_vertices)
  ultimately show ?thesis
    using ps more
    by (simp add: neighbors_for_index_with_weights_def edges_for_index_def
        distance_tuples_loop_append)
qed

subsection \<open>Well-formed graphs\<close>

lemma constructed_inv: "graph_inv (constructed vs)"
  by (simp add: graph_inv_def constructed_def list_all_iff)

lemma add_vertex_inv:
  assumes "graph_inv g"
  shows "graph_inv (fst (add_vertex x g))"
proof -
  let ?P = "\<lambda>n e. valid_index (edge_u e) n \<and> valid_index (edge_v e) n"
  from assms have "list_all (list_all (?P (length (vertices g)))) (edges g)"
    by (simp add: graph_inv_def)
  then have "list_all (list_all (?P (Suc (length (vertices g))))) (edges g)"
    by (auto simp: list_all_iff valid_index_Suc)
  with assms show ?thesis
    by (simp add: graph_inv_def add_vertex_def Let_def)
qed

lemma add_edge_inv:
  assumes inv: "graph_inv g" and ok: "add_edge e g = (g', Inr r)"
  shows "graph_inv g'"
proof -
  let ?n = "length (vertices g)"
  let ?P = "\<lambda>e. valid_index (edge_u e) ?n \<and> valid_index (edge_v e) ?n"
  from ok obtain i j where ij: "list_pos (edges g) (edge_u e) = Inr i"
    "list_pos (edges g) (edge_v e) = Inr j"
    and g': "g' = g\<lparr>edges := ((edges g)[i := edges g ! i @ [e]])
                    [j := (edges g)[i := edges g ! i @ [e]] ! j @ [reversed e]]\<rparr>"
    by (rule add_edge_Inr)
  from inv have len: "length (edges g) = ?n" and all: "list_all (list_all ?P) (edges g)"
    by (simp_all add: graph_inv_def)
  from ij len have P: "?P e"
    by (simp_all add: list_pos_cases split: if_splits)
  then have Pr: "?P (reversed e)"
    by (simp add: edge_v_reversed edge_u_reversed)
  have "list_all (list_all ?P) ((edges g)[i := edges g ! i @ [e]])"
    using all P by (rule list_all_update_append)
  then have "list_all (list_all ?P) (((edges g)[i := edges g ! i @ [e]])
                    [j := (edges g)[i := edges g ! i @ [e]] ! j @ [reversed e]])"
    using Pr by (rule list_all_update_append)
  with len show ?thesis by (simp add: graph_inv_def g')
qed

lemma apply_op_inv:
  assumes "graph_inv g" and "apply_op c g = (g', Inr r)"
  shows "graph_inv g'"
proof (cases "is_add_edge c")
  case True
  from True assms(2) obtain e where "add_edge e g = (g', Inr r)" by (rule apply_op_add_edge)
  with assms(1) show ?thesis by (rule add_edge_inv)
next
  case False
  then obtain x where "c = AddVertex x" by (cases c) simp_all
  with assms show ?thesis using add_vertex_inv [of g x] by auto
qed

lemma exec_ops_inv:
  "graph_inv g \<Longrightarrow> all_succeed cs g \<Longrightarrow> graph_inv (exec_ops cs g)"
proof (induction cs arbitrary: g)
  case Nil
  then show ?case by simp
next
  case (Cons c cs)
  obtain g' r where step: "apply_op c g = (g', r)" by (cases "apply_op c g")
  with Cons.prems(2) obtain u where r: "r = Inr u" and rest: "all_succeed cs g'"
    by (cases r) simp_all
  from Cons.prems(1) step r have "graph_inv g'" by (auto intro: apply_op_inv)
  from Cons.IH [OF this rest] step show ?case by simp
qed

lemma neighbors_for_index_inv:
  assumes inv: "graph_inv g" and k: "list_pos (edges g) i = Inr k"
  shows "neighbors_for_index i g = Inr (map (\<lambda>e. projr (vertex_at (edge_v e) g)) (edges g ! k))"
proof -
  from k have "k < length (edges g)" by (rule list_pos_Inr_less)
  with inv have "list_all (\<lambda>e. valid_index (edge_v e) (length (vertices g))) (edges g ! k)"
    by (simp add: graph_inv_def list_all_length)
  then have "\<And>j. j \<in> set (map edge_v (edges g ! k)) \<Longrightarrow>
      vertex_at j g = Inr (projr (vertex_at j g))"
    by (auto simp: list_all_iff vertex_at_def getitem_valid)
  then have "map_raise (\<lambda>j. vertex_at j g) (map edge_v (edges g ! k))
      = Inr (map (\<lambda>j. projr (vertex_at j g)) (map edge_v (edges g ! k)))"
    by (rule map_raise_total)
  with k show ?thesis
    by (simp add: neighbors_for_index_def getitem_def comp_def)
qed

lemma neighbors_for_index_nonneg:
  assumes "graph_inv g" and "0 \<le> i" "i < vertex_count g"
  shows "neighbors_for_index i g
     = Inr (map (\<lambda>e. projr (vertex_at (edge_v e) g)) (edges g ! nat i))"
proof -
  from assms have "list_pos (edges g) i = Inr (nat i)"
    by (simp add: graph_inv_def vertex_count_def list_pos_nonneg)
  with assms(1) show ?thesis by (rule neighbors_for_index_inv)
qed

subsection \<open>Weighted edges and weighted graphs\<close>

lemma is_weighted_reversed: "is_weighted (reversed e) = is_weighted e"
  by (cases e) simp_all

lemma is_weighted_weight: "is_weighted e \<Longrightarrow> weight e = Inr (projr (weight e))"
  by (cases e) simp_all

lemma distance_tuples_loop_total:
  "(\<And>e. e \<in> set es \<Longrightarrow> vertex_at (edge_v e) g = Inr (h e) \<and> weight e = Inr (k e)) \<Longrightarrow>
   distance_tuples_loop es g acc = Inr (acc @ map (\<lambda>e. (h e, k e)) es)"
  by (induction es arbitrary: acc) simp_all

lemma add_edge_weighted_inv:
  assumes inv: "weighted_inv g" and e: "is_weighted e" and ok: "add_edge e g = (g', Inr r)"
  shows "weighted_inv g'"
proof -
  from ok obtain i j where
    g': "g' = g\<lparr>edges := ((edges g)[i := edges g ! i @ [e]])
                    [j := (edges g)[i := edges g ! i @ [e]] ! j @ [reversed e]]\<rparr>"
    by (rule add_edge_Inr)
  from inv have "graph_inv g" and all: "list_all (list_all is_weighted) (edges g)"
    by (simp_all add: weighted_inv_def)
  from this(1) ok have one: "graph_inv g'" by (rule add_edge_inv)
  have "list_all (list_all is_weighted) ((edges g)[i := edges g ! i @ [e]])"
    using all e by (rule list_all_update_append)
  moreover have "is_weighted (reversed e)"
    using e by (simp add: is_weighted_reversed)
  ultimately have "list_all (list_all is_weighted) (((edges g)[i := edges g ! i @ [e]])
                    [j := (edges g)[i := edges g ! i @ [e]] ! j @ [reversed e]])"
    by (rule list_all_update_append)
  with one show ?thesis by (simp add: weighted_inv_def g')
qed

lemma constructed_weighted_inv: "weighted_inv (constructed vs)"
proof -
  have "list_all (list_all is_weighted) (edges (constructed vs))"
    by (simp add: constructed_def list_all_iff)
  then show ?thesis
    by (simp add: weighted_inv_def constructed_inv)
qed

lemma add_vertex_weighted_inv:
  assumes "weighted_inv g"
  shows "weighted_inv (fst (add_vertex x g))"
proof -
  from assms have "graph_inv (fst (add_vertex x g))"
    by (simp add: weighted_inv_def add_vertex_inv)
  moreover from assms have "list_all (list_all is_weighted) (edges (fst (add_vertex x g)))"
    by (simp add: weighted_inv_def add_vertex_eq)
  ultimately show ?thesis by (simp add: weighted_inv_def)
qed

lemma WeightedGraph_add_edge_by_indices_inv:
  assumes "weighted_inv g" and "WeightedGraph_add_edge_by_indices u v w g = (g', Inr r)"
  shows "weighted_inv g'"
proof -
  have "is_weighted (WeightedEdge u v w)" by simp
  with assms(1) show ?thesis
    using assms(2) unfolding WeightedGraph_add_edge_by_indices_def
    by (rule add_edge_weighted_inv)
qed

lemma WeightedGraph_add_edge_by_vertices_inv:
  assumes "weighted_inv g" and "WeightedGraph_add_edge_by_vertices a b w g = (g', Inr r)"
  shows "weighted_inv g'"
proof -
  from assms(2) obtain u v where "WeightedGraph_add_edge_by_indices u v w g = (g', Inr r)"
    by (auto simp: WeightedGraph_add_edge_by_vertices_def split: sum.splits)
  with assms(1) show ?thesis
    by (rule WeightedGraph_add_edge_by_indices_inv)
qed

lemma neighbors_for_index_with_weights_nonneg:
  assumes inv: "weighted_inv g" and i: "0 \<le> i" "i < vertex_count g"
  shows "neighbors_for_index_with_weights i g
     = Inr (map (\<lambda>e. (projr (vertex_at (edge_v e) g), projr (weight e))) (edges g ! nat i))"
proof -
  from inv have ginv: "graph_inv g" and w: "list_all (list_all is_weighted) (edges g)"
    by (simp_all add: weighted_inv_def)
  from ginv i have k: "nat i < length (edges g)"
    by (simp add: graph_inv_def vertex_count_def)
  with i have es: "edges_for_index i g = Inr (edges g ! nat i)"
    by (simp add: edges_for_index_def getitem_nonneg)
  have each: "vertex_at (edge_v e) g = Inr (projr (vertex_at (edge_v e) g))
      \<and> weight e = Inr (projr (weight e))" if "e \<in> set (edges g ! nat i)" for e
  proof
    from ginv k
    have "list_all (\<lambda>e. valid_index (edge_v e) (length (vertices g))) (edges g ! nat i)"
      by (simp add: graph_inv_def list_all_length)
    with that have "valid_index (edge_v e) (length (vertices g))"
      by (simp add: list_all_iff)
    then show "vertex_at (edge_v e) g = Inr (projr (vertex_at (edge_v e) g))"
      by (simp add: vertex_at_def getitem_valid)
    from w k have "list_all is_weighted (edges g ! nat i)"
      by (simp add: list_all_length)
    with that have "is_weighted e"
      by (simp add: list_all_iff)
    then show "weight e = Inr (projr (weight e))"
      by (rule is_weighted_weight)
  qed
  from each have "distance_tuples_loop (edges g ! nat i) g []
      = Inr ([] @ map (\<lambda>e. (projr (vertex_at (edge_v e) g), projr (weight e))) (edges g ! nat i))"
    by (rule distance_tuples_loop_total)
  with es show ?thesis
    by (simp add: neighbors_for_index_with_weights_def)
qed

lemma WeightedEdge_lt_weights:
  "WeightedEdge_lt (WeightedEdge a b w) (WeightedEdge c d w') = Inr (w < w')"
  by (simp add: WeightedEdge_lt_def)

lemma ascending_weights:
  fixes ys :: "('w::linorder) edge list"
  assumes w: "list_all is_weighted ys"
    and s: "sorted_wrt (\<lambda>x y. WeightedEdge_lt y x \<noteq> Inr True) ys"
  shows "sorted (map (\<lambda>e. projr (weight e)) ys)"
proof -
  have "projr (weight x) \<le> projr (weight y)"
    if "x \<in> set ys" "y \<in> set ys" "WeightedEdge_lt y x \<noteq> Inr True" for x y
  proof -
    from w that(1,2) have "is_weighted x" "is_weighted y"
      by (simp_all add: list_all_iff)
    then obtain a b p c d q where "x = WeightedEdge a b p" "y = WeightedEdge c d q"
      by (cases x; cases y) simp_all
    with that(3) show ?thesis
      by (simp add: WeightedEdge_lt_weights)
  qed
  then have "sorted_wrt (\<lambda>x y. projr (weight x) \<le> projr (weight y)) ys"
    using s by (rule sorted_wrt_mono_rel)
  then show ?thesis by (simp add: sorted_map)
qed

subsection \<open>Several graphs\<close>

lemma view_Graph_init:
  "view (length (objects p)) (Graph_init arg p)
     = constructed (lists p (case arg of None \<Rightarrow> Graph_default | Some r \<Rightarrow> r))"
  by (simp add: view_def Graph_init_def constructed_def Let_def)

lemma view_WeightedGraph_init:
  "view (length (objects p)) (WeightedGraph_init arg p)
     = constructed (lists p (case arg of None \<Rightarrow> WeightedGraph_default | Some r \<Rightarrow> r))"
  by (simp add: view_def WeightedGraph_init_def constructed_def Let_def)





section \<open>The claims\<close>

text \<open>
  C1, as stated, fails in two ways. A negative index is not out of range for a Python
  list: on a graph with one vertex \<^verbatim>\<open>add_edge_by_indices(-1, -1)\<close> returns. And the two
  appends of \<^verbatim>\<open>add_edge\<close> are not atomic: on the same graph \<^verbatim>\<open>add_edge_by_indices(0, 5)\<close>
  raises \<^verbatim>\<open>IndexError\<close> after \<^verbatim>\<open>Edge(0, 5)\<close> has been appended to the adjacency list of
  vertex 0.
\<close>

theorem add_edge_by_indices_out_of_range_counterexample:
  "vertex_count (constructed [''A''] :: (string, real) Graph) = 1
   \<and> snd (add_edge_by_indices (- 1) (- 1) (constructed [''A''] :: (string, real) Graph)) = Inr ()
   \<and> snd (add_edge_by_indices 0 5 (constructed [''A''] :: (string, real) Graph)) = Inl IndexError
   \<and> edges (constructed [''A''] :: (string, real) Graph) = [[]]
   \<and> edges (fst (add_edge_by_indices 0 5 (constructed [''A''] :: (string, real) Graph)))
       = [[Edge 0 5]]
   \<and> fst (add_edge_by_indices 0 5 (constructed [''A''] :: (string, real) Graph))
       \<noteq> constructed [''A'']"
  by (simp add: vertex_count_def constructed_def add_edge_by_indices_def add_edge_def list_pos_def)

text \<open>
  C1, amended. Let the graph have one adjacency list per vertex and \<open>n = vertex_count()\<close>.
  \<^verbatim>\<open>add_edge_by_indices(u, v)\<close>, and \<^verbatim>\<open>add_edge\<close> on \<^verbatim>\<open>Edge(u, v)\<close>, raise \<^verbatim>\<open>IndexError\<close> exactly
  when \<open>u\<close> or \<open>v\<close> is outside \<open>[-n, n)\<close>. When \<open>u\<close> is outside, the graph is unchanged. When
  \<open>u\<close> is inside and \<open>v\<close> outside, \<^verbatim>\<open>Edge(u, v)\<close> has been appended to the adjacency list
  that \<open>u\<close> selects (from the end when \<open>u\<close> is negative) and nothing else has changed.
\<close>

theorem add_edge_by_indices_index_error:
  assumes "length (edges g) = length (vertices g)"
  shows "(u < - vertex_count g \<or> vertex_count g \<le> u \<longrightarrow>
            add_edge_by_indices u v g = (g, Inl IndexError)
            \<and> add_edge (Edge u v) g = (g, Inl IndexError))
       \<and> (- vertex_count g \<le> u \<and> u < vertex_count g
            \<and> (v < - vertex_count g \<or> vertex_count g \<le> v) \<longrightarrow>
            (\<exists>k<length (edges g).
               k = nat (if u < 0 then u + vertex_count g else u)
               \<and> add_edge_by_indices u v g
                   = (g\<lparr>edges := (edges g)[k := edges g ! k @ [Edge u v]]\<rparr>, Inl IndexError)
               \<and> add_edge (Edge u v) g
                   = (g\<lparr>edges := (edges g)[k := edges g ! k @ [Edge u v]]\<rparr>, Inl IndexError)))
       \<and> (- vertex_count g \<le> u \<and> u < vertex_count g
            \<and> - vertex_count g \<le> v \<and> v < vertex_count g \<longrightarrow>
            snd (add_edge_by_indices u v g) = Inr ()
            \<and> snd (add_edge (Edge u v) g) = Inr ())"
proof -
  let ?n = "length (edges g)"
  have n: "vertex_count g = int ?n"
    using assms by (simp add: vertex_count_def)
  have valid: "\<And>i. valid_index i ?n \<longleftrightarrow> - vertex_count g \<le> i \<and> i < vertex_count g"
    by (simp add: valid_index_def n)
  have first: "add_edge (Edge u v) g = (g, Inl IndexError)"
    if "u < - vertex_count g \<or> vertex_count g \<le> u"
  proof -
    from that have "list_pos (edges g) (edge_u (Edge u v)) = Inl IndexError"
      by (auto simp: list_pos_cases valid)
    then show ?thesis by (rule add_edge_fail_u)
  qed
  have second: "\<exists>k<?n. k = nat (if u < 0 then u + vertex_count g else u)
      \<and> add_edge (Edge u v) g = (g\<lparr>edges := (edges g)[k := edges g ! k @ [Edge u v]]\<rparr>, Inl IndexError)"
    if "- vertex_count g \<le> u \<and> u < vertex_count g \<and> (v < - vertex_count g \<or> vertex_count g \<le> v)"
  proof -
    let ?k = "nat (if u < 0 then u + vertex_count g else u)"
    from that have u: "list_pos (edges g) (edge_u (Edge u v)) = Inr ?k"
      by (simp add: list_pos_cases valid n)
    from that have v: "list_pos (edges g) (edge_v (Edge u v)) = Inl IndexError"
      by (auto simp: list_pos_cases valid)
    from u have "?k < ?n" by (rule list_pos_Inr_less)
    with add_edge_fail_v [OF u v] show ?thesis by blast
  qed
  have third: "snd (add_edge (Edge u v) g) = Inr ()"
    if "- vertex_count g \<le> u \<and> u < vertex_count g \<and> - vertex_count g \<le> v \<and> v < vertex_count g"
  proof -
    from that obtain i j where "list_pos (edges g) (edge_u (Edge u v)) = Inr i"
      "list_pos (edges g) (edge_v (Edge u v)) = Inr j"
      by (simp add: list_pos_cases valid)
    then show ?thesis by (simp add: add_edge_ok)
  qed
  from first second third show ?thesis
    unfolding add_edge_by_indices_def by blast
qed

theorem add_edge_by_indices_index_error_witness:
  "add_edge_by_indices 5 0 (constructed [''A'', ''B''] :: (string, real) Graph)
     = (constructed [''A'', ''B''], Inl IndexError)
   \<and> add_edge_by_indices (- 1) 2 (constructed [''A'', ''B''] :: (string, real) Graph)
     = (\<lparr>vertices = [''A'', ''B''], edges = [[], [Edge (- 1) 2]]\<rparr>, Inl IndexError)
   \<and> snd (add_edge_by_indices (- 2) 1 (constructed [''A'', ''B''] :: (string, real) Graph)) = Inr ()"
proof -
  let ?g = "constructed [''A'', ''B''] :: (string, real) Graph"
  have len: "length (edges ?g) = length (vertices ?g)"
    by (simp add: constructed_def)
  have n: "vertex_count ?g = 2"
    by (simp add: vertex_count_def constructed_def)
  from add_edge_by_indices_index_error [OF len, of 5 0] n
  have a: "add_edge_by_indices 5 0 ?g = (?g, Inl IndexError)" by simp
  from add_edge_by_indices_index_error [OF len, of "- 1" 2] n
  have b: "add_edge_by_indices (- 1) 2 ?g
     = (\<lparr>vertices = [''A'', ''B''], edges = [[], [Edge (- 1) 2]]\<rparr>, Inl IndexError)"
    by (simp add: constructed_def)
  from add_edge_by_indices_index_error [OF len, of "- 2" 1] n
  have c: "snd (add_edge_by_indices (- 2) 1 ?g) = Inr ()" by simp
  from a b c show ?thesis by simp
qed




text \<open>
  C3, as stated, fails on a graph that holds a record with an endpoint out of range. On
  \<^verbatim>\<open>Graph(['A', 'B'])\<close> the call \<^verbatim>\<open>add_edge_by_indices(0, 5)\<close> raises and leaves \<^verbatim>\<open>Edge(0, 5)\<close> in
  the adjacency list of vertex 0. Then \<^verbatim>\<open>add_edge_by_indices(0, 1)\<close>, with both indices in
  range, returns, and \<^verbatim>\<open>neighbors_for_index(0)\<close> raises \<^verbatim>\<open>IndexError\<close>.
\<close>

theorem dangling_edge_counterexample:
  "fst (add_edge_by_indices 0 5 (constructed [''A'', ''B''] :: (string, real) Graph))
     = \<lparr>vertices = [''A'', ''B''], edges = [[Edge 0 5], []]\<rparr>
   \<and> vertex_count (\<lparr>vertices = [''A'', ''B''], edges = [[Edge 0 5], []]\<rparr> :: (string, real) Graph) = 2
   \<and> add_edge_by_indices 0 1 (\<lparr>vertices = [''A'', ''B''], edges = [[Edge 0 5], []]\<rparr> :: (string, real) Graph)
       = (\<lparr>vertices = [''A'', ''B''], edges = [[Edge 0 5, Edge 0 1], [Edge 1 0]]\<rparr>, Inr ())
   \<and> neighbors_for_index 0
        (\<lparr>vertices = [''A'', ''B''], edges = [[Edge 0 5, Edge 0 1], [Edge 1 0]]\<rparr> :: (string, real) Graph)
       = Inl IndexError"
  by (simp add: constructed_def add_edge_by_indices_def add_edge_def list_pos_def vertex_count_def
      neighbors_for_index_def getitem_def vertex_at_def)

text \<open>
  C3, amended. For every graph and indices \<open>u\<close> and \<open>v\<close> in \<open>[0, vertex_count())\<close> for which
  \<^verbatim>\<open>neighbors_for_index(u)\<close> and \<^verbatim>\<open>neighbors_for_index(v)\<close> return before the call:
  \<^verbatim>\<open>add_edge_by_indices(u, v)\<close> returns; \<^verbatim>\<open>Edge(u, v)\<close> is appended to the adjacency list of
  \<open>u\<close> and \<^verbatim>\<open>Edge(v, u)\<close> to that of \<open>v\<close> (both to the same list, in this order, when
  \<open>u = v\<close>), and nothing else changes. Afterwards \<^verbatim>\<open>neighbors_for_index(u)\<close> is its former
  result followed by \<^verbatim>\<open>vertex_at(v)\<close>, and \<^verbatim>\<open>neighbors_for_index(v)\<close> its former result
  followed by \<^verbatim>\<open>vertex_at(u)\<close>.
\<close>

theorem add_edge_by_indices_symmetric:
  assumes "0 \<le> u" "u < vertex_count g" and "0 \<le> v" "v < vertex_count g"
    and "neighbors_for_index u g = Inr nu" and "neighbors_for_index v g = Inr nv"
  shows "\<exists>g' nu' nv'.
     add_edge_by_indices u v g = (g', Inr ()) \<and> add_edge (Edge u v) g = (g', Inr ())
     \<and> vertices g' = vertices g \<and> length (edges g') = length (edges g)
     \<and> (\<forall>k<length (edges g).
           edges g' ! k = edges g ! k @ (if k = nat u then [Edge u v] else [])
                                      @ (if k = nat v then [Edge v u] else []))
     \<and> vertex_at u g' = Inr (vertices g ! nat u) \<and> vertex_at v g' = Inr (vertices g ! nat v)
     \<and> neighbors_for_index u g' = Inr nu' \<and> vertices g ! nat v \<in> set nu'
     \<and> nu' = nu @ [vertices g ! nat v] @ (if u = v then [vertices g ! nat u] else [])
     \<and> neighbors_for_index v g' = Inr nv' \<and> vertices g ! nat u \<in> set nv'
     \<and> nv' = nv @ (if u = v then [vertices g ! nat v] else []) @ [vertices g ! nat u]"
proof -
  from assms(1,5) have u: "u < int (length (edges g))"
    by (simp add: neighbors_for_index_in_range)
  from assms(3,6) have v: "v < int (length (edges g))"
    by (simp add: neighbors_for_index_in_range)
  from add_edge_appends [of "Edge u v" g] assms(1,3) u v
  obtain g' where g': "add_edge (Edge u v) g = (g', Inr ())"
    "vertices g' = vertices g" "length (edges g') = length (edges g)"
    and nth: "\<forall>k<length (edges g).
       edges g' ! k = edges g ! k @ (if k = nat u then [Edge u v] else [])
                                  @ (if k = nat v then [Edge v u] else [])"
    by auto
  have at_u: "vertex_at u g = Inr (vertices g ! nat u)"
    and at_v: "vertex_at v g = Inr (vertices g ! nat v)"
    using assms(1-4) by (simp_all add: vertex_at_nonneg)
  from g'(2) have at_u': "vertex_at u g' = Inr (vertices g ! nat u)"
    and at_v': "vertex_at v g' = Inr (vertices g ! nat v)"
    using at_u at_v by (simp_all add: vertex_at_def)
  let ?nu' = "nu @ [vertices g ! nat v] @ (if u = v then [vertices g ! nat u] else [])"
  let ?nv' = "nv @ (if u = v then [vertices g ! nat v] else []) @ [vertices g ! nat u]"
  from assms(1) u nth
  have new_u: "edges g' ! nat u
      = edges g ! nat u @ ([Edge u v] @ (if u = v then [Edge v u] else []))"
    using assms(3) by (auto simp: nat_eq_iff)
  have more_u: "map_raise (\<lambda>j. vertex_at j g)
      (map edge_v ([Edge u v] @ (if u = v then [Edge v u] else [])))
      = Inr ([vertices g ! nat v] @ (if u = v then [vertices g ! nat u] else []))"
    by (simp add: at_u at_v)
  from assms(5,1) g'(2,3) new_u more_u have nu': "neighbors_for_index u g' = Inr ?nu'"
    by (rule neighbors_for_index_append)
  from assms(3) v nth
  have new_v: "edges g' ! nat v
      = edges g ! nat v @ ((if u = v then [Edge u v] else []) @ [Edge v u])"
    using assms(1) by (auto simp: nat_eq_iff)
  have more_v: "map_raise (\<lambda>j. vertex_at j g)
      (map edge_v ((if u = v then [Edge u v] else []) @ [Edge v u]))
      = Inr ((if u = v then [vertices g ! nat v] else []) @ [vertices g ! nat u])"
    by (simp add: at_u at_v)
  from assms(6,3) g'(2,3) new_v more_v have nv': "neighbors_for_index v g' = Inr ?nv'"
    by (rule neighbors_for_index_append)
  from g' nth at_u' at_v' nu' nv' show ?thesis
    unfolding add_edge_by_indices_def
    by (intro exI [of _ g'] exI [of _ ?nu'] exI [of _ ?nv']) simp
qed

theorem add_edge_by_indices_symmetric_witness:
  "\<exists>g'. add_edge_by_indices 0 2 (constructed [''A'', ''B'', ''C''] :: (string, real) Graph)
          = (g', Inr ())
     \<and> neighbors_for_index 0 g' = Inr [''C''] \<and> neighbors_for_index 2 g' = Inr [''A'']"
proof -
  let ?g = "constructed [''A'', ''B'', ''C''] :: (string, real) Graph"
  have cnt: "vertex_count ?g = 3" by (simp add: vertex_count_def constructed_def)
  have vs: "vertices ?g = [''A'', ''B'', ''C'']" by (simp add: constructed_def)
  have n0: "neighbors_for_index 0 ?g = Inr []" and n2: "neighbors_for_index 2 ?g = Inr []"
    by (simp_all add: neighbors_for_index_def getitem_def list_pos_def constructed_def)
  from add_edge_by_indices_symmetric [of 0 ?g 2, OF _ _ _ _ n0 n2] cnt vs
  show ?thesis by auto
qed

text \<open>
  C4. \<^verbatim>\<open>edge_count()\<close> is the sum of the lengths of the adjacency lists. From a graph
  without edges, a sequence of \<open>n\<close> \<^verbatim>\<open>add_edge*\<close> calls (\<^verbatim>\<open>add_edge\<close>, \<^verbatim>\<open>add_edge_by_indices\<close>,
  \<^verbatim>\<open>add_edge_by_vertices\<close>, of either class) that all return leaves \<^verbatim>\<open>edge_count() == 2 * n\<close>.
\<close>

theorem edge_count_twice_calls:
  "edge_count g = int (\<Sum>es\<leftarrow>edges g. length es)
   \<and> (edge_count g = 0 \<and> list_all is_add_edge cs \<and> all_succeed cs g
        \<longrightarrow> edge_count (exec_ops cs g) = 2 * int (length cs))"
proof (intro conjI impI)
  show "edge_count g = int (\<Sum>es\<leftarrow>edges g. length es)"
    by (simp add: edge_count_def)
next
  assume "edge_count g = 0 \<and> list_all is_add_edge cs \<and> all_succeed cs g"
  then have zero: "edge_count g = 0" and all: "filter is_add_edge cs = cs"
    and ok: "all_succeed cs g"
    by (simp_all add: list_all_iff)
  from exec_ops_count [OF ok] zero all
  show "edge_count (exec_ops cs g) = 2 * int (length cs)" by simp
qed

theorem edge_count_twice_calls_witness:
  "edge_count (exec_ops [AddEdgeByVertices ''A'' ''B'', AddEdgeByVertices ''B'' ''C'']
      (constructed [''A'', ''B'', ''C''] :: (string, real) Graph)) = 4"
proof -
  let ?g = "constructed [''A'', ''B'', ''C''] :: (string, real) Graph"
  let ?cs = "[AddEdgeByVertices ''A'' ''B'', AddEdgeByVertices ''B'' ''C''] :: (string, real) op list"
  have "edge_count ?g = 0 \<and> list_all is_add_edge ?cs \<and> all_succeed ?cs ?g"
    by (simp add: edge_count_def constructed_def add_edge_by_vertices_def add_edge_by_indices_def
        add_edge_def list_pos_def)
  with edge_count_twice_calls [of ?g ?cs] show ?thesis by simp
qed

text \<open>
  C5. \<^verbatim>\<open>add_edge_by_vertices(first, second)\<close>: when either value is absent from the vertex
  sequence the call raises \<^verbatim>\<open>ValueError\<close> (the specification's NotFound) and the graph is
  unchanged. When both are present, each is resolved to the index of its first match and
  the call is \<^verbatim>\<open>add_edge_by_indices\<close> on those two indices.
\<close>

theorem add_edge_by_vertices_lookup:
  "(first \<notin> set (vertices g) \<or> second \<notin> set (vertices g) \<longrightarrow>
      add_edge_by_vertices first second g = (g, Inl ValueError))
   \<and> (first \<in> set (vertices g) \<and> second \<in> set (vertices g) \<longrightarrow>
      (\<exists>i j. i < length (vertices g) \<and> vertices g ! i = first
             \<and> (\<forall>k<i. vertices g ! k \<noteq> first)
             \<and> j < length (vertices g) \<and> vertices g ! j = second
             \<and> (\<forall>k<j. vertices g ! k \<noteq> second)
             \<and> index_of first g = Inr (int i) \<and> index_of second g = Inr (int j)
             \<and> add_edge_by_vertices first second g = add_edge_by_indices (int i) (int j) g))"
proof (intro conjI impI)
  assume absent: "first \<notin> set (vertices g) \<or> second \<notin> set (vertices g)"
  show "add_edge_by_vertices first second g = (g, Inl ValueError)"
  proof (cases "first \<in> set (vertices g)")
    case False
    then show ?thesis
      by (simp add: add_edge_by_vertices_def list_index_absent)
  next
    case True
    with absent have "list_index (vertices g) second = Inl ValueError"
      by (simp add: list_index_absent)
    moreover from list_index_present [OF True]
    obtain i where "list_index (vertices g) first = Inr (int i)"
      by blast
    ultimately show ?thesis
      by (simp add: add_edge_by_vertices_def)
  qed
next
  assume "first \<in> set (vertices g) \<and> second \<in> set (vertices g)"
  then have a: "first \<in> set (vertices g)" and b: "second \<in> set (vertices g)"
    by simp_all
  from list_index_present [OF a] obtain i where i: "list_index (vertices g) first = Inr (int i)"
    "i < length (vertices g)" "vertices g ! i = first" "\<forall>k<i. vertices g ! k \<noteq> first"
    by blast
  from list_index_present [OF b] obtain j where j: "list_index (vertices g) second = Inr (int j)"
    "j < length (vertices g)" "vertices g ! j = second" "\<forall>k<j. vertices g ! k \<noteq> second"
    by blast
  from i(1) j(1) have "add_edge_by_vertices first second g = add_edge_by_indices (int i) (int j) g"
    by (simp add: add_edge_by_vertices_def)
  with i j show "\<exists>i j. i < length (vertices g) \<and> vertices g ! i = first
             \<and> (\<forall>k<i. vertices g ! k \<noteq> first)
             \<and> j < length (vertices g) \<and> vertices g ! j = second
             \<and> (\<forall>k<j. vertices g ! k \<noteq> second)
             \<and> index_of first g = Inr (int i) \<and> index_of second g = Inr (int j)
             \<and> add_edge_by_vertices first second g = add_edge_by_indices (int i) (int j) g"
    unfolding index_of_def by (intro exI [of _ i] exI [of _ j]) simp
qed

theorem add_edge_by_vertices_lookup_witness:
  "add_edge_by_vertices ''A'' ''Z'' (constructed [''B'', ''A'', ''A''] :: (string, real) Graph)
     = (constructed [''B'', ''A'', ''A''], Inl ValueError)
   \<and> add_edge_by_vertices ''A'' ''B'' (constructed [''B'', ''A'', ''A''] :: (string, real) Graph)
     = add_edge_by_indices 1 0 (constructed [''B'', ''A'', ''A''])"
proof -
  let ?g = "constructed [''B'', ''A'', ''A''] :: (string, real) Graph"
  have vs: "vertices ?g = [''B'', ''A'', ''A'']" by (simp add: constructed_def)
  have out: "''A'' \<notin> set (vertices ?g) \<or> ''Z'' \<notin> set (vertices ?g)"
    by (simp add: vs)
  have mem: "''A'' \<in> set (vertices ?g) \<and> ''B'' \<in> set (vertices ?g)"
    by (simp add: vs)
  from add_edge_by_vertices_lookup [of "''A''" ?g "''Z''"] out
  have absent: "add_edge_by_vertices ''A'' ''Z'' ?g = (?g, Inl ValueError)"
    by blast
  from add_edge_by_vertices_lookup [of "''A''" ?g "''B''"] mem
  obtain i j where i: "index_of ''A'' ?g = Inr (int i)" and j: "index_of ''B'' ?g = Inr (int j)"
    and eq: "add_edge_by_vertices ''A'' ''B'' ?g = add_edge_by_indices (int i) (int j) ?g"
    by blast
  have "index_of ''A'' ?g = Inr 1" and "index_of ''B'' ?g = Inr 0"
    by (simp_all add: index_of_def vs)
  with i j have "int i = 1" and "int j = 0" by simp_all
  with absent eq show ?thesis by simp
qed

text \<open>
  C6, as stated, fails on a weighted graph that holds a record with an endpoint out of
  range. On \<^verbatim>\<open>WeightedGraph(['X', 'Y'])\<close> the call \<^verbatim>\<open>add_edge_by_indices(0, 5, 7)\<close> raises and
  leaves \<^verbatim>\<open>WeightedEdge(0, 5, 7)\<close> in the adjacency list of vertex 0. Then
  \<^verbatim>\<open>add_edge_by_indices(0, 1, 3)\<close> returns, and \<^verbatim>\<open>neighbors_for_index_with_weights(0)\<close> raises
  \<^verbatim>\<open>IndexError\<close>.
\<close>

theorem weighted_dangling_edge_counterexample:
  "fst (WeightedGraph_add_edge_by_indices 0 5 7 (constructed [''X'', ''Y''] :: (string, real) Graph))
     = \<lparr>vertices = [''X'', ''Y''], edges = [[WeightedEdge 0 5 7], []]\<rparr>
   \<and> vertex_count (\<lparr>vertices = [''X'', ''Y''], edges = [[WeightedEdge 0 5 7], []]\<rparr>
        :: (string, real) Graph) = 2
   \<and> WeightedGraph_add_edge_by_indices 0 1 3
        (\<lparr>vertices = [''X'', ''Y''], edges = [[WeightedEdge 0 5 7], []]\<rparr> :: (string, real) Graph)
       = (\<lparr>vertices = [''X'', ''Y''],
           edges = [[WeightedEdge 0 5 7, WeightedEdge 0 1 3], [WeightedEdge 1 0 3]]\<rparr>, Inr ())
   \<and> neighbors_for_index_with_weights 0
        (\<lparr>vertices = [''X'', ''Y''],
          edges = [[WeightedEdge 0 5 7, WeightedEdge 0 1 3], [WeightedEdge 1 0 3]]\<rparr>
         :: (string, real) Graph)
       = Inl IndexError"
  by (simp add: constructed_def WeightedGraph_add_edge_by_indices_def add_edge_def list_pos_def
      vertex_count_def neighbors_for_index_with_weights_def edges_for_index_def getitem_def
      vertex_at_def)

text \<open>
  C6, amended. For every weighted graph, indices \<open>u\<close> and \<open>v\<close> in \<open>[0, vertex_count())\<close>
  for which \<^verbatim>\<open>neighbors_for_index_with_weights(u)\<close> and \<^verbatim>\<open>neighbors_for_index_with_weights(v)\<close>
  return before the call, and every weight \<open>w\<close>: \<^verbatim>\<open>add_edge_by_indices(u, v, w)\<close> returns.
  Afterwards \<^verbatim>\<open>neighbors_for_index_with_weights(u)\<close> is its former result followed by
  \<^verbatim>\<open>(vertex_at(v), w)\<close>, the last record of the adjacency list of \<open>v\<close> is
  \<^verbatim>\<open>WeightedEdge(v, u, w)\<close>, the reversal of the edge, with the same weight, and
  \<^verbatim>\<open>neighbors_for_index_with_weights(v)\<close> is its former result followed by \<^verbatim>\<open>(vertex_at(u), w)\<close>.
\<close>

theorem weighted_edge_both_directions:
  fixes g :: "('v, 'w) Graph"
  assumes "0 \<le> u" "u < vertex_count g" and "0 \<le> v" "v < vertex_count g"
    and "neighbors_for_index_with_weights u g = Inr pu"
    and "neighbors_for_index_with_weights v g = Inr pv"
  shows "\<exists>g' pu' pv' es.
     WeightedGraph_add_edge_by_indices u v w g = (g', Inr ())
     \<and> vertex_at v g' = Inr (vertices g ! nat v) \<and> vertex_at u g' = Inr (vertices g ! nat u)
     \<and> neighbors_for_index_with_weights u g' = Inr pu' \<and> (vertices g ! nat v, w) \<in> set pu'
     \<and> pu' = pu @ [(vertices g ! nat v, w)] @ (if u = v then [(vertices g ! nat u, w)] else [])
     \<and> neighbors_for_index_with_weights v g' = Inr pv' \<and> (vertices g ! nat u, w) \<in> set pv'
     \<and> pv' = pv @ (if u = v then [(vertices g ! nat v, w)] else []) @ [(vertices g ! nat u, w)]
     \<and> edges_for_index v g' = Inr es
     \<and> es = edges g ! nat v @ (if u = v then [WeightedEdge u v w] else []) @ [WeightedEdge v u w]
     \<and> reversed (WeightedEdge u v w) = WeightedEdge v u w
     \<and> weight (WeightedEdge v u w) = Inr w"
proof -
  from assms(1,5) have u: "u < int (length (edges g))"
    by (simp add: neighbors_for_index_with_weights_in_range)
  from assms(3,6) have v: "v < int (length (edges g))"
    by (simp add: neighbors_for_index_with_weights_in_range)
  from add_edge_appends [of "WeightedEdge u v w" g] assms(1,3) u v
  obtain g' where g': "add_edge (WeightedEdge u v w) g = (g', Inr ())"
    "vertices g' = vertices g" "length (edges g') = length (edges g)"
    and nth: "\<forall>k<length (edges g).
       edges g' ! k = edges g ! k @ (if k = nat u then [WeightedEdge u v w] else [])
                                  @ (if k = nat v then [WeightedEdge v u w] else [])"
    by auto
  have at_u: "vertex_at u g = Inr (vertices g ! nat u)"
    and at_v: "vertex_at v g = Inr (vertices g ! nat v)"
    using assms(1-4) by (simp_all add: vertex_at_nonneg)
  from g'(2) have at_u': "vertex_at u g' = Inr (vertices g ! nat u)"
    and at_v': "vertex_at v g' = Inr (vertices g ! nat v)"
    using at_u at_v by (simp_all add: vertex_at_def)
  let ?pu' = "pu @ [(vertices g ! nat v, w)] @ (if u = v then [(vertices g ! nat u, w)] else [])"
  let ?pv' = "pv @ (if u = v then [(vertices g ! nat v, w)] else []) @ [(vertices g ! nat u, w)]"
  let ?es = "edges g ! nat v @ (if u = v then [WeightedEdge u v w] else []) @ [WeightedEdge v u w]"
  from assms(1) u nth
  have new_u: "edges g' ! nat u
      = edges g ! nat u @ ([WeightedEdge u v w] @ (if u = v then [WeightedEdge v u w] else []))"
    using assms(3) by (auto simp: nat_eq_iff)
  have more_u: "distance_tuples_loop
      ([WeightedEdge u v w] @ (if u = v then [WeightedEdge v u w] else [])) g pu = Inr ?pu'"
    by (simp add: at_u at_v)
  from assms(5,1) g'(2,3) new_u more_u
  have pu': "neighbors_for_index_with_weights u g' = Inr ?pu'"
    by (rule neighbors_for_index_with_weights_append)
  from assms(3) v nth
  have new_v: "edges g' ! nat v
      = edges g ! nat v @ ((if u = v then [WeightedEdge u v w] else []) @ [WeightedEdge v u w])"
    using assms(1) by (auto simp: nat_eq_iff)
  have more_v: "distance_tuples_loop
      ((if u = v then [WeightedEdge u v w] else []) @ [WeightedEdge v u w]) g pv = Inr ?pv'"
    by (simp add: at_u at_v)
  from assms(6,3) g'(2,3) new_v more_v
  have pv': "neighbors_for_index_with_weights v g' = Inr ?pv'"
    by (rule neighbors_for_index_with_weights_append)
  from assms(3) v g'(3) new_v have es: "edges_for_index v g' = Inr ?es"
    by (simp add: edges_for_index_def getitem_nonneg)
  from g'(1) at_u' at_v' pu' pv' es show ?thesis
    unfolding WeightedGraph_add_edge_by_indices_def
    by (intro exI [of _ g'] exI [of _ ?pu'] exI [of _ ?pv'] exI [of _ ?es]) simp
qed

theorem weighted_edge_both_directions_witness:
  "\<exists>g'. WeightedGraph_add_edge_by_indices 0 1 10
          (constructed [''X'', ''Y''] :: (string, real) Graph) = (g', Inr ())
     \<and> neighbors_for_index_with_weights 0 g' = Inr [(''Y'', 10)]
     \<and> neighbors_for_index_with_weights 1 g' = Inr [(''X'', 10)]
     \<and> edges_for_index 1 g' = Inr [WeightedEdge 1 0 10]"
proof -
  let ?g = "constructed [''X'', ''Y''] :: (string, real) Graph"
  have cnt: "vertex_count ?g = 2" by (simp add: vertex_count_def constructed_def)
  have g: "vertices ?g = [''X'', ''Y'']" "edges ?g = [[], []]"
    by (simp_all add: constructed_def)
  have p0: "neighbors_for_index_with_weights 0 ?g = Inr []"
    and p1: "neighbors_for_index_with_weights 1 ?g = Inr []"
    by (simp_all add: neighbors_for_index_with_weights_def edges_for_index_def getitem_def
        list_pos_def constructed_def)
  from weighted_edge_both_directions [of 0 ?g 1, OF _ _ _ _ p0 p1, of 10] cnt g
  show ?thesis by auto
qed

text \<open>
  C7. \<^verbatim>\<open>add_vertex(value)\<close> always returns (its result is a state and an integer, never an
  exception): the value is appended to the vertex sequence, an empty adjacency list is
  appended to the edge sequence, and the integer returned is \<^verbatim>\<open>vertex_count() - 1\<close> of the
  new state, the index at which \<^verbatim>\<open>vertex_at\<close> finds the new vertex.
\<close>

theorem add_vertex_appends:
  "vertices (fst (add_vertex x g)) = vertices g @ [x]
   \<and> edges (fst (add_vertex x g)) = edges g @ [[]]
   \<and> snd (add_vertex x g) = vertex_count (fst (add_vertex x g)) - 1
   \<and> snd (add_vertex x g) = int (length (vertices g))
   \<and> vertex_at (snd (add_vertex x g)) (fst (add_vertex x g)) = Inr x"
  by (simp add: add_vertex_eq vertex_count_def vertex_at_def getitem_def list_pos_def)

text \<open>
  C8 does not hold of the code: \<^verbatim>\<open>edges_for_vertex\<close> calls \<^verbatim>\<open>vertex_at\<close>, not \<^verbatim>\<open>index_of\<close>. With
  the string vertices of the module's own example it raises \<^verbatim>\<open>TypeError\<close>; with integer
  vertices \<open>[5, 7]\<close> it raises \<^verbatim>\<open>IndexError\<close> for the vertex 5; with integer vertices
  \<open>[1, 1]\<close> and a self-loop at index 0 it returns the empty adjacency list of index 1 for
  the vertex 1. In each case \<^verbatim>\<open>edges_for_index(index_of(vertex))\<close> is the adjacency list of
  index 0.
\<close>

theorem edges_for_vertex_uses_vertex_at:
  "index_of ''A'' (constructed [''A'', ''B''] :: (string, real) Graph) = Inr 0
   \<and> edges_for_index 0 (constructed [''A'', ''B''] :: (string, real) Graph) = Inr []
   \<and> edges_for_vertex (\<lambda>_. None) ''A'' (constructed [''A'', ''B''] :: (string, real) Graph)
       = Inl TypeError
   \<and> index_of 5 (constructed [5, 7] :: (int, real) Graph) = Inr 0
   \<and> edges_for_index 0 (constructed [5, 7] :: (int, real) Graph) = Inr []
   \<and> edges_for_vertex Some 5 (constructed [5, 7] :: (int, real) Graph) = Inl IndexError
   \<and> index_of 1 (fst (add_edge_by_indices 0 0 (constructed [1, 1] :: (int, real) Graph))) = Inr 0
   \<and> edges_for_index 0 (fst (add_edge_by_indices 0 0 (constructed [1, 1] :: (int, real) Graph)))
       = Inr [Edge 0 0, Edge 0 0]
   \<and> edges_for_vertex Some 1 (fst (add_edge_by_indices 0 0 (constructed [1, 1] :: (int, real) Graph)))
       = Inr []"
  by (simp add: index_of_def edges_for_index_def edges_for_vertex_def vertex_at_def
      getitem_def list_pos_def constructed_def add_edge_by_indices_def add_edge_def)

text \<open>
  C9. For weighted edges \<open>a\<close> and \<open>b\<close>, \<^verbatim>\<open>a < b\<close> is \<^verbatim>\<open>a.weight < b.weight\<close>, whatever the
  endpoints. For three weighted edges with weights 5, 1 and 3, the arrangement with
  weights 1, 3, 5 is ascending in this order, and it is the only arrangement of the three
  in which no edge is less than an earlier one: it is what sorting them yields.
\<close>

theorem weighted_edge_order:
  "WeightedEdge_lt (WeightedEdge a b w) (WeightedEdge c d w') = Inr (w < w')
   \<and> (\<forall>ys. mset ys = mset [WeightedEdge a1 b1 (5::real), WeightedEdge a2 b2 1, WeightedEdge a3 b3 3]
           \<and> sorted_wrt (\<lambda>x y. WeightedEdge_lt y x \<noteq> Inr True) ys
        \<longrightarrow> ys = [WeightedEdge a2 b2 1, WeightedEdge a3 b3 3, WeightedEdge a1 b1 5])
   \<and> sorted_wrt (\<lambda>x y. WeightedEdge_lt y x \<noteq> Inr True)
        [WeightedEdge a2 b2 (1::real), WeightedEdge a3 b3 3, WeightedEdge a1 b1 5]"
proof (intro conjI allI impI)
  show "WeightedEdge_lt (WeightedEdge a b w) (WeightedEdge c d w') = Inr (w < w')"
    by (rule WeightedEdge_lt_weights)
next
  show "sorted_wrt (\<lambda>x y. WeightedEdge_lt y x \<noteq> Inr True)
        [WeightedEdge a2 b2 (1::real), WeightedEdge a3 b3 3, WeightedEdge a1 b1 5]"
    by (simp add: WeightedEdge_lt_weights)
next
  fix ys :: "real edge list"
  let ?xs = "[WeightedEdge a1 b1 (5::real), WeightedEdge a2 b2 1, WeightedEdge a3 b3 3]"
  let ?f = "\<lambda>e::real edge. projr (weight e)"
  assume "mset ys = mset ?xs \<and> sorted_wrt (\<lambda>x y. WeightedEdge_lt y x \<noteq> Inr True) ys"
  then have perm: "mset ys = mset ?xs"
    and asc: "sorted_wrt (\<lambda>x y. WeightedEdge_lt y x \<noteq> Inr True) ys"
    by simp_all
  from perm have members: "set ys = set ?xs"
    by (rule mset_eq_setD)
  then have "list_all is_weighted ys"
    by (simp add: list_all_iff)
  then have "sorted (map ?f ys)"
    using asc by (rule ascending_weights)
  with perm have "sort (map ?f ?xs) = map ?f ys"
    by (intro properties_for_sort) (simp_all only: mset_map)
  then have weights: "map ?f ys = [1, 3, 5]"
    by simp
  then obtain x y z where ys: "ys = [x, y, z]" and "?f x = 1" "?f y = 3" "?f z = 5"
    by (auto simp: map_eq_Cons_conv)
  moreover from ys have "x \<in> set ys" "y \<in> set ys" "z \<in> set ys"
    by simp_all
  then have "x \<in> set ?xs" "y \<in> set ?xs" "z \<in> set ?xs"
    unfolding members .
  ultimately have "x = WeightedEdge a2 b2 1" "y = WeightedEdge a3 b3 3" "z = WeightedEdge a1 b1 5"
    by auto
  with ys show "ys = [WeightedEdge a2 b2 1, WeightedEdge a3 b3 3, WeightedEdge a1 b1 5]"
    by simp
qed

theorem weighted_edge_order_witness:
  "WeightedEdge_lt (WeightedEdge 2 3 (1::real)) (WeightedEdge 0 1 5) = Inr True
   \<and> WeightedEdge_lt (WeightedEdge 0 1 (5::real)) (WeightedEdge 2 3 1) = Inr False
   \<and> mset [WeightedEdge 2 3 (1::real), WeightedEdge 4 5 3, WeightedEdge 0 1 5]
       = mset [WeightedEdge 0 1 5, WeightedEdge 2 3 1, WeightedEdge 4 5 3]
   \<and> sorted_wrt (\<lambda>x y. WeightedEdge_lt y x \<noteq> Inr True)
        [WeightedEdge 2 3 (1::real), WeightedEdge 4 5 3, WeightedEdge 0 1 5]"
proof -
  note first = weighted_edge_order [of 2 3 "1::real" 0 1 5 0 1 2 3 4 5]
  note second = weighted_edge_order [of 0 1 "5::real" 2 3 1 0 1 2 3 4 5]
  from first have "WeightedEdge_lt (WeightedEdge 2 3 (1::real)) (WeightedEdge 0 1 5) = Inr True"
    by simp
  moreover
  from second have "WeightedEdge_lt (WeightedEdge 0 1 (5::real)) (WeightedEdge 2 3 1) = Inr False"
    by simp
  moreover
  have "mset [WeightedEdge 2 3 (1::real), WeightedEdge 4 5 3, WeightedEdge 0 1 5]
       = mset [WeightedEdge 0 1 5, WeightedEdge 2 3 1, WeightedEdge 4 5 3]"
    by simp
  moreover from first
  have "sorted_wrt (\<lambda>x y. WeightedEdge_lt y x \<noteq> Inr True)
        [WeightedEdge 2 3 (1::real), WeightedEdge 4 5 3, WeightedEdge 0 1 5]"
    by blast
  ultimately show ?thesis by blast
qed

text \<open>
  C10, as stated, fails on a graph that holds a record with an endpoint out of range.
  On \<^verbatim>\<open>Graph(['A', 'B'])\<close> the call \<^verbatim>\<open>add_edge_by_indices(0, 5)\<close> raises and leaves
  \<^verbatim>\<open>Edge(0, 5)\<close> in the adjacency list of vertex 0. Then the self-loop call
  \<^verbatim>\<open>add_edge_by_indices(0, 0)\<close> returns, and \<^verbatim>\<open>neighbors_for_index(0)\<close> raises \<^verbatim>\<open>IndexError\<close>.
\<close>

theorem self_loop_dangling_edge_counterexample:
  "fst (add_edge_by_indices 0 5 (constructed [''A'', ''B''] :: (string, real) Graph))
     = \<lparr>vertices = [''A'', ''B''], edges = [[Edge 0 5], []]\<rparr>
   \<and> vertex_count (\<lparr>vertices = [''A'', ''B''], edges = [[Edge 0 5], []]\<rparr> :: (string, real) Graph) = 2
   \<and> add_edge_by_indices 0 0 (\<lparr>vertices = [''A'', ''B''], edges = [[Edge 0 5], []]\<rparr> :: (string, real) Graph)
       = (\<lparr>vertices = [''A'', ''B''], edges = [[Edge 0 5, Edge 0 0, Edge 0 0], []]\<rparr>, Inr ())
   \<and> neighbors_for_index 0
        (\<lparr>vertices = [''A'', ''B''], edges = [[Edge 0 5, Edge 0 0, Edge 0 0], []]\<rparr> :: (string, real) Graph)
       = Inl IndexError"
  by (simp add: constructed_def add_edge_by_indices_def add_edge_def list_pos_def vertex_count_def
      neighbors_for_index_def getitem_def vertex_at_def)

text \<open>
  C10, amended. For every graph and an index \<open>u\<close> in \<open>[0, vertex_count())\<close> for which
  \<^verbatim>\<open>neighbors_for_index(u)\<close> returns before the call: the self-loop call
  \<^verbatim>\<open>add_edge_by_indices(u, u)\<close> returns and appends two records to the adjacency list of
  \<open>u\<close>, \<^verbatim>\<open>Edge(u, u)\<close> and its reversal, which is equal to it. \<^verbatim>\<open>edge_count()\<close> grows by
  exactly 2, and \<^verbatim>\<open>neighbors_for_index(u)\<close> is its former result followed by \<^verbatim>\<open>vertex_at(u)\<close>
  twice.
\<close>

theorem self_loop_adds_two:
  fixes g :: "('v, 'w) Graph"
  assumes "0 \<le> u" "u < vertex_count g" and "neighbors_for_index u g = Inr ns"
  shows "\<exists>g'.
     add_edge_by_indices u u g = (g', Inr ())
     \<and> reversed (Edge u u :: 'w edge) = Edge u u
     \<and> vertices g' = vertices g
     \<and> edges g' = (edges g)[nat u := edges g ! nat u @ [Edge u u, Edge u u]]
     \<and> edge_count g' = edge_count g + 2
     \<and> vertex_at u g' = Inr (vertices g ! nat u)
     \<and> neighbors_for_index u g' = Inr (ns @ [vertices g ! nat u, vertices g ! nat u])"
proof -
  let ?k = "nat u"
  let ?g' = "g\<lparr>edges := (edges g)[?k := edges g ! ?k @ [Edge u u, Edge u u]]\<rparr>"
  from assms(1,3) have len: "u < int (length (edges g))"
    by (simp add: neighbors_for_index_in_range)
  with assms(1) have k: "?k < length (edges g)" by simp
  from assms(1) len have "add_edge (Edge u u) g =
     (g\<lparr>edges := ((edges g)[?k := edges g ! ?k @ [Edge u u]])
         [?k := (edges g)[?k := edges g ! ?k @ [Edge u u]] ! ?k @ [reversed (Edge u u)]]\<rparr>, Inr ())"
    using add_edge_in_range [of "Edge u u" g] by simp
  with k have ok: "add_edge (Edge u u) g = (?g', Inr ())"
    by simp
  then have count: "edge_count ?g' = edge_count g + 2"
    by (rule add_edge_count)
  have at: "vertex_at u g = Inr (vertices g ! nat u)"
    using assms(1,2) by (rule vertex_at_nonneg)
  then have at': "vertex_at u ?g' = Inr (vertices g ! nat u)"
    by (simp add: vertex_at_def)
  have same: "vertices ?g' = vertices g" "length (edges ?g') = length (edges g)"
    by simp_all
  from k have new: "edges ?g' ! nat u = edges g ! nat u @ [Edge u u, Edge u u]"
    by simp
  have more: "map_raise (\<lambda>j. vertex_at j g) (map edge_v [Edge u u, Edge u u])
      = Inr [vertices g ! nat u, vertices g ! nat u]"
    by (simp add: at)
  from assms(3,1) same new more
  have after: "neighbors_for_index u ?g' = Inr (ns @ [vertices g ! nat u, vertices g ! nat u])"
    by (rule neighbors_for_index_append)
  from ok count at' after show ?thesis
    unfolding add_edge_by_indices_def by (intro exI [of _ ?g']) simp
qed

theorem self_loop_adds_two_witness:
  "\<exists>g'. add_edge_by_indices 1 1 (constructed [''A'', ''B''] :: (string, real) Graph) = (g', Inr ())
     \<and> edges g' = [[], [Edge 1 1, Edge 1 1]]
     \<and> edge_count g' = 2
     \<and> neighbors_for_index 1 g' = Inr [''B'', ''B'']"
proof -
  let ?g = "constructed [''A'', ''B''] :: (string, real) Graph"
  have cnt: "vertex_count ?g = 2" by (simp add: vertex_count_def constructed_def)
  have g: "vertices ?g = [''A'', ''B'']" "edges ?g = [[], []]" "edge_count ?g = 0"
    by (simp_all add: constructed_def edge_count_def)
  have ns: "neighbors_for_index 1 ?g = Inr []"
    by (simp add: neighbors_for_index_def getitem_def list_pos_def constructed_def)
  from self_loop_adds_two [of 1 ?g, OF _ _ ns] cnt g
  show ?thesis by auto
qed

end
